theory Spec2Isabelle
  imports Main
begin

section \<open>Python strings\<close>

text \<open>
  A Python \<open>str\<close> is modelled as a \<open>string\<close> whose characters stand for the code points
  U+0000 to U+00FF. On that range \<open>str.isspace\<close> holds for U+0009..U+000D,
  U+001C..U+001F, U+0020, U+0085 and U+00A0, and the decimal digits are \<open>0\<close>..\<open>9\<close> only.
\<close>

definition isspace :: "char \<Rightarrow> bool" where
  "isspace c = (of_char c \<in> {9, 10, 11, 12, 13, 28, 29, 30, 31, 32, 133, 160 :: nat})"

definition isdigit :: "char \<Rightarrow> bool" where
  "isdigit c = (48 \<le> (of_char c :: nat) \<and> (of_char c :: nat) \<le> 57)"

text \<open>\<open>s.strip()\<close>: whitespace removed at both ends.\<close>

definition strip :: "string \<Rightarrow> string" where
  "strip s = rev (dropWhile isspace (rev (dropWhile isspace s)))"

text \<open>
  \<open>s.split()\<close> with no argument: the maximal runs of characters that are not whitespace,
  in order; no empty token is produced. \<open>cur\<close> is the token being read.
\<close>

fun split_from :: "string \<Rightarrow> string \<Rightarrow> string list" where
  "split_from cur [] = (if cur = [] then [] else [cur])"
| "split_from cur (c # cs) =
     (if isspace c then (if cur = [] then split_from [] cs else cur # split_from [] cs)
      else split_from (cur @ [c]) cs)"

definition split :: "string \<Rightarrow> string list" where
  "split s = split_from [] s"

text \<open>\<open>' '.join(xs)\<close>.\<close>

fun join_space :: "string list \<Rightarrow> string" where
  "join_space [] = []"
| "join_space [x] = x"
| "join_space (x # y # ys) = x @ CHR '' '' # join_space (y # ys)"

text \<open>
  \<open>int(s)\<close> on a \<open>str\<close>: surrounding whitespace is dropped, one sign is allowed, then
  decimal digits, with single underscores allowed between digits only. CPython refuses a
  literal of more than \<open>sys.int_max_str_digits\<close> digits (4300 unless reconfigured).
  \<open>None\<close> stands for \<open>ValueError\<close>.
\<close>

definition int_max_str_digits :: nat where
  "int_max_str_digits = 4300"

fun int_body :: "bool \<Rightarrow> string \<Rightarrow> bool" where
  "int_body prev_digit [] = prev_digit"
| "int_body prev_digit (c # cs) =
     (if isdigit c then int_body True cs
      else if c = CHR ''_'' then prev_digit \<and> int_body False cs
      else False)"

definition digit_val :: "char \<Rightarrow> nat" where
  "digit_val c = of_char c - 48"

definition digits_value :: "string \<Rightarrow> nat" where
  "digits_value ds = foldl (\<lambda>acc c. 10 * acc + digit_val c) 0 ds"

definition py_int :: "string \<Rightarrow> int option" where
  "py_int s =
     (let t = strip s;
          neg = (t \<noteq> [] \<and> hd t = CHR ''-'');
          body = (if t \<noteq> [] \<and> (hd t = CHR ''-'' \<or> hd t = CHR ''+'') then tl t else t);
          ds = filter isdigit body
      in if int_body False body \<and> length ds \<le> int_max_str_digits
         then Some (if neg then - int (digits_value ds) else int (digits_value ds))
         else None)"

text \<open>\<open>str(n)\<close> for an \<open>int\<close>, as an f-string renders it.\<close>

definition digit_char :: "nat \<Rightarrow> char" where
  "digit_char d = char_of (48 + d)"

fun str_nat :: "nat \<Rightarrow> string" where
  "str_nat n = (if n < 10 then [digit_char n] else str_nat (n div 10) @ [digit_char (n mod 10)])"

declare str_nat.simps [simp del]

definition str_int :: "int \<Rightarrow> string" where
  "str_int i = (if i < 0 then CHR ''-'' # str_nat (nat (- i)) else str_nat (nat i))"

section \<open>Parsed pages\<close>

text \<open>
  The tree \<open>BeautifulSoup(content, 'html.parser')\<close> returns: a node is a string or a tag
  with its name, its attribute dictionary and its children. Comments and other strings that
  \<open>get_text\<close> skips are observed by no operation of the scraper and are left out. The
  page itself is the tag named \<open>[document]\<close>.
\<close>

datatype node =
    NavigableString string
  | Tag (tag_name: string) (attrs: "(string \<times> string) list") (contents: "node list")

fun is_tag :: "node \<Rightarrow> bool" where
  "is_tag (NavigableString _) = False"
| "is_tag (Tag _ _ _) = True"

text \<open>\<open>tag.descendants\<close>: every node below the tag, in document order.\<close>

fun descendants :: "node \<Rightarrow> node list" where
  "descendants (NavigableString _) = []"
| "descendants (Tag _ _ cs) = concat (map (\<lambda>c. c # descendants c) cs)"

text \<open>\<open>tag.get_text()\<close> and \<open>tag.text\<close>: the strings below the tag, concatenated.\<close>

fun get_text :: "node \<Rightarrow> string" where
  "get_text (NavigableString s) = s"
| "get_text (Tag _ _ cs) = concat (map get_text cs)"

text \<open>
  The \<open>class\<close> attribute is multi-valued: the parser keeps the list of its
  whitespace-separated values. A search for a \<open>class_\<close> string matches a tag when one
  of the values is that string, or when the values joined by single spaces are.
\<close>

definition class_matches :: "string \<Rightarrow> node \<Rightarrow> bool" where
  "class_matches cls n =
     (case map_of (attrs n) ''class'' of
        None \<Rightarrow> False
      | Some v \<Rightarrow> cls \<in> set (split v) \<or> join_space (split v) = cls)"

text \<open>\<open>soup.find_all(name, class_=cls)\<close>.\<close>

definition find_all :: "string \<Rightarrow> string \<Rightarrow> node \<Rightarrow> node list" where
  "find_all name cls soup =
     filter (\<lambda>n. is_tag n \<and> tag_name n = name \<and> class_matches cls n) (descendants soup)"

text \<open>\<open>tag.find(name)\<close>: the first descendant tag of that name, or \<open>None\<close>.\<close>

definition find :: "string \<Rightarrow> node \<Rightarrow> node option" where
  "find name t =
     (case filter (\<lambda>n. is_tag n \<and> tag_name n = name) (descendants t) of
        [] \<Rightarrow> None
      | a # _ \<Rightarrow> Some a)"

section \<open>The scraper\<close>

text \<open>
  Every failure the scraper lets out is a \<open>SystemExit\<close> with its message. The exceptions
  raised and caught inside \<open>get_pagination\<close> are the values of \<open>exn\<close>.
\<close>

datatype error = SystemExit string

datatype exn = IndexError | ValueError

definition not_found :: error where
  "not_found = SystemExit ''Aborted, Keyword Not Found!!!''"

text \<open>\<open>xs[i]\<close> for a non-negative constant index.\<close>

definition item :: "'a list \<Rightarrow> nat \<Rightarrow> exn + 'a" where
  "item xs i = (if i < length xs then Inr (xs ! i) else Inl IndexError)"

text \<open>\<open>WebScraper.get_pagination\<close>: the body of the \<open>try\<close>, then the handler.\<close>

definition get_pagination_body :: "node \<Rightarrow> exn + int" where
  "get_pagination_body soup =
     (let pagination = find_all ''div'' ''text-center pagination-text'' soup in
      case item pagination 0 of
        Inl e \<Rightarrow> Inl e
      | Inr first \<Rightarrow>
          (let num_pagination_text = get_text first;
               num_split = split num_pagination_text in
           case item num_split 3 of
             Inl e \<Rightarrow> Inl e
           | Inr tok \<Rightarrow> (case py_int tok of None \<Rightarrow> Inl ValueError | Some n \<Rightarrow> Inr n)))"

definition get_pagination :: "node \<Rightarrow> error + int" where
  "get_pagination soup =
     (case get_pagination_body soup of
        Inl e \<Rightarrow> Inl not_found
      | Inr n \<Rightarrow> Inr n)"

text \<open>A journal record: the dictionary \<open>extract_journal_data\<close> builds for one name block.\<close>

record journal =
  name :: string
  link :: string
  affiliation :: string
  accreditation :: string

text \<open>\<open>tag[key]\<close>: the attribute's value, \<open>KeyError(key)\<close> when the tag has no such attribute.\<close>

datatype key_error = KeyError string

definition getitem :: "node \<Rightarrow> string \<Rightarrow> key_error + string" where
  "getitem t key = (case map_of (attrs t) key of None \<Rightarrow> Inl (KeyError key) | Some v \<Rightarrow> Inr v)"

text \<open>\<open>str(e)\<close> of a \<open>KeyError\<close> is the \<open>repr\<close> of its key; the only key used is \<open>href\<close>.\<close>

fun str_key_error :: "key_error \<Rightarrow> string" where
  "str_key_error (KeyError k) = [CHR 0x27] @ k @ [CHR 0x27]"

text \<open>
  The loop of \<open>extract_journal_data\<close>, over the indices \<open>i\<close>, \<open>i + 1\<close>, ... of the name
  blocks still to visit. Only the \<open>link\<close> entry can raise.
\<close>

fun extract_from ::
  "nat \<Rightarrow> node list \<Rightarrow> node list \<Rightarrow> node list \<Rightarrow> key_error + journal list" where
  "extract_from i [] affiliations accreditations = Inr []"
| "extract_from i (nb # nbs) affiliations accreditations =
     (case (case find ''a'' nb of None \<Rightarrow> Inr [] | Some a \<Rightarrow> getitem a ''href'') of
        Inl e \<Rightarrow> Inl e
      | Inr href \<Rightarrow>
          (case extract_from (Suc i) nbs affiliations accreditations of
             Inl e \<Rightarrow> Inl e
           | Inr journals \<Rightarrow>
               Inr (\<lparr> name = strip (get_text nb),
                      link = href,
                      affiliation =
                        (if i < length affiliations then strip (get_text (affiliations ! i)) else []),
                      accreditation =
                        (if i < length accreditations then strip (get_text (accreditations ! i))
                         else []) \<rparr> # journals)))"

definition extract_journal_data_body :: "node \<Rightarrow> key_error + journal list" where
  "extract_journal_data_body soup =
     (let journal_names = find_all ''div'' ''affil-name mb-3'' soup;
          affiliations = find_all ''div'' ''affil-loc mt-2'' soup;
          accreditations = find_all ''span'' ''num-stat accredited'' soup
      in extract_from 0 journal_names affiliations accreditations)"

subsection \<open>Effects\<close>

text \<open>
  What a run does to the outside is the list of its events, in order. \<open>ToCsv\<close> is the call
  \<open>pd.DataFrame(data).to_csv(filename, index=False)\<close>; \<open>Visualize\<close> stands for
  \<open>visualize_data\<close> reading the file back and saving its two charts; \<open>PrintTable\<close>
  is the \<open>tabulate\<close> grid written to the console.
\<close>

datatype event =
    Get string
  | Sleep nat
  | LogInfo string
  | LogError string
  | ToCsv string "journal list"
  | Visualize string string
  | PrintTable "string list" "string list list"
  | Print string

text \<open>
  The outside world: what the site answers to a GET (\<open>Inl\<close> the message of the
  \<open>RequestException\<close>, \<open>raise_for_status\<close> included, \<open>Inr\<close> the parsed page), whether
  writing the table raises (and with which message), and whether charting succeeds. One
  answer per URL is enough: a run requests no URL twice, as is shown further down.
\<close>

record world =
  http_get :: "string \<Rightarrow> string + node"
  to_csv :: "string \<Rightarrow> journal list \<Rightarrow> string option"
  charts_ok :: "string \<Rightarrow> string \<Rightarrow> bool"

text \<open>The fields of a \<open>WebScraper\<close> that its methods read.\<close>

record scraper =
  base_url :: string
  keyword :: string
  filename :: string
  log_filename :: string
  viz_dir :: string

text \<open>
  A method's effect: the events it performed, then a \<open>SystemExit\<close> or its result.
  \<open>bind\<close> is sequencing: an exception skips the rest.
\<close>

type_synonym 'a action = "event list \<times> (error + 'a)"

definition bind :: "'a action \<Rightarrow> ('a \<Rightarrow> 'b action) \<Rightarrow> 'b action" where
  "bind m f =
     (case m of
        (t, Inl e) \<Rightarrow> (t, Inl e)
      | (t, Inr x) \<Rightarrow> (case f x of (t', r) \<Rightarrow> (t @ t', r)))"

definition emit :: "event \<Rightarrow> unit action" where
  "emit ev = ([ev], Inr ())"

definition fetch_page :: "scraper \<Rightarrow> world \<Rightarrow> string \<Rightarrow> node action" where
  "fetch_page sc w url =
     (case http_get w url of
        Inr soup \<Rightarrow> ([Get url], Inr soup)
      | Inl msg \<Rightarrow>
          ([Get url, LogError (''Error fetching page '' @ url @ '': '' @ msg)],
           Inl (SystemExit
             (''An error occurred! Log file has been written to '' @ log_filename sc))))"

definition extract_journal_data :: "node \<Rightarrow> journal list action" where
  "extract_journal_data soup =
     (case extract_journal_data_body soup of
        Inr journals \<Rightarrow> ([], Inr journals)
      | Inl e \<Rightarrow>
          ([LogError (''Error extracting journal data: '' @ str_key_error e)], Inl not_found))"

definition save_to_csv :: "scraper \<Rightarrow> world \<Rightarrow> journal list \<Rightarrow> unit action" where
  "save_to_csv sc w data =
     (case to_csv w (filename sc) data of
        None \<Rightarrow> ([ToCsv (filename sc) data, LogInfo (''Data saved to '' @ filename sc)], Inr ())
      | Some msg \<Rightarrow>
          ([ToCsv (filename sc) data], Inl (SystemExit (''Error saving to CSV: '' @ msg))))"

definition visualize_data :: "scraper \<Rightarrow> world \<Rightarrow> unit action" where
  "visualize_data sc w =
     (if charts_ok w (filename sc) (viz_dir sc)
      then ([Visualize (filename sc) (viz_dir sc), LogInfo ''Visualizations created successfully''],
            Inr ())
      else ([Visualize (filename sc) (viz_dir sc)],
            Inl (SystemExit ''Error creating visualizations'')))"

definition initial_url :: "scraper \<Rightarrow> string" where
  "initial_url sc = base_url sc @ ''?q='' @ keyword sc"

definition page_url :: "scraper \<Rightarrow> int \<Rightarrow> string" where
  "page_url sc page = base_url sc @ ''?page='' @ str_int page @ ''&q='' @ keyword sc"

text \<open>
  The \<open>for page in range(1, total_pages + 1)\<close> loop of \<open>run\<close>, over the pages still to
  visit; \<open>all_journals\<close> is the accumulator.
\<close>

primrec scrape_pages ::
  "scraper \<Rightarrow> world \<Rightarrow> int \<Rightarrow> int list \<Rightarrow> journal list \<Rightarrow> journal list action" where
  "scrape_pages sc w total_pages [] all_journals = ([], Inr all_journals)"
| "scrape_pages sc w total_pages (page # pages) all_journals =
     bind (emit (LogInfo (''Scraping page '' @ str_int page @ ''/'' @ str_int total_pages)))
       (\<lambda>_. bind (fetch_page sc w (page_url sc page))
         (\<lambda>soup. bind (extract_journal_data soup)
           (\<lambda>journals. bind (emit (Sleep 2))
             (\<lambda>_. scrape_pages sc w total_pages pages (all_journals @ journals)))))"

text \<open>
  \<open>WebScraper.run\<close>. Its \<open>except Exception\<close> handler does not catch \<open>SystemExit\<close>,
  which every failure modelled here is, so the handler never runs.
\<close>

definition run :: "scraper \<Rightarrow> world \<Rightarrow> unit action" where
  "run sc w =
     bind (fetch_page sc w (initial_url sc))
       (\<lambda>initial_soup. bind ([], get_pagination initial_soup)
         (\<lambda>total_pages. bind
             (emit (LogInfo (''Starting scraping process for '' @ str_int total_pages @ '' pages'')))
           (\<lambda>_. bind (scrape_pages sc w total_pages [1..total_pages] [])
             (\<lambda>all_journals. bind (save_to_csv sc w all_journals)
               (\<lambda>_. bind (visualize_data sc w)
                 (\<lambda>_.
                   ([PrintTable [''Name'', ''Affiliation'', ''Accreditation'', ''Link'']
                       (map (\<lambda>j. [name j, affiliation j, accreditation j, link j]) all_journals),
                     LogInfo ''Scraping process completed successfully'',
                     Print (''Scraping completed. Data saved to '' @ filename sc),
                     Print (''Visualizations saved in '' @ viz_dir sc),
                     Print (''Log file location: '' @ log_filename sc)],
                    Inr ())))))))"

section \<open>Notions used to state the properties\<close>

text \<open>
  A name block is well linked when \<open>journal_names[i].find('a')['href']\<close> cannot raise: it has
  no anchor, or its first anchor carries an \<open>href\<close>.
\<close>

definition has_href :: "node \<Rightarrow> bool" where
  "has_href nb = (case find ''a'' nb of None \<Rightarrow> True | Some a \<Rightarrow> map_of (attrs a) ''href'' \<noteq> None)"

text \<open>
  What a trace shows: the steps that hand the collection to the outside (\<open>is_export\<close>), the
  URLs requested in order (\<open>gets\<close>), the requests and waits in order (\<open>pacing\<close>) and the
  record lists handed to \<open>to_csv\<close> (\<open>csv_payloads\<close>).
\<close>

fun is_export :: "event \<Rightarrow> bool" where
  "is_export (ToCsv _ _) = True"
| "is_export (Visualize _ _) = True"
| "is_export (PrintTable _ _) = True"
| "is_export (Print _) = True"
| "is_export _ = False"

fun gets :: "event list \<Rightarrow> string list" where
  "gets [] = []"
| "gets (Get url # evs) = url # gets evs"
| "gets (_ # evs) = gets evs"

fun pacing :: "event list \<Rightarrow> event list" where
  "pacing [] = []"
| "pacing (Get url # evs) = Get url # pacing evs"
| "pacing (Sleep n # evs) = Sleep n # pacing evs"
| "pacing (_ # evs) = pacing evs"

fun csv_payloads :: "event list \<Rightarrow> journal list list" where
  "csv_payloads [] = []"
| "csv_payloads (ToCsv f data # evs) = data # csv_payloads evs"
| "csv_payloads (_ # evs) = csv_payloads evs"

text \<open>
  What one iteration of the loop does with page \<open>page\<close>: \<open>page_ok\<close> when the fetch and the
  extraction both succeed, and \<open>page_journals\<close> the records extracted then.
\<close>

definition page_ok :: "scraper \<Rightarrow> world \<Rightarrow> int \<Rightarrow> bool" where
  "page_ok sc w page =
     (case http_get w (page_url sc page) of
        Inl _ \<Rightarrow> False
      | Inr soup \<Rightarrow> (case extract_journal_data_body soup of Inl _ \<Rightarrow> False | Inr _ \<Rightarrow> True))"

definition page_journals :: "scraper \<Rightarrow> world \<Rightarrow> int \<Rightarrow> journal list" where
  "page_journals sc w page =
     (case http_get w (page_url sc page) of
        Inl _ \<Rightarrow> []
      | Inr soup \<Rightarrow> (case extract_journal_data_body soup of Inl _ \<Rightarrow> [] | Inr journals \<Rightarrow> journals))"

text \<open>
  The last steps of \<open>run\<close>, after the loop: export, charts, console table (the state
  Finalize of the driver), and the log line written before the loop.
\<close>

definition finalize :: "scraper \<Rightarrow> world \<Rightarrow> journal list \<Rightarrow> unit action" where
  "finalize sc w all_journals =
     bind (save_to_csv sc w all_journals)
       (\<lambda>_. bind (visualize_data sc w)
         (\<lambda>_.
           ([PrintTable [''Name'', ''Affiliation'', ''Accreditation'', ''Link'']
               (map (\<lambda>j. [name j, affiliation j, accreditation j, link j]) all_journals),
             LogInfo ''Scraping process completed successfully'',
             Print (''Scraping completed. Data saved to '' @ filename sc),
             Print (''Visualizations saved in '' @ viz_dir sc),
             Print (''Log file location: '' @ log_filename sc)],
            Inr ())))"

definition start_message :: "int \<Rightarrow> event" where
  "start_message total_pages =
     LogInfo (''Starting scraping process for '' @ str_int total_pages @ '' pages'')"

text \<open>Sample pages.\<close>

definition div_tag :: "string \<Rightarrow> node list \<Rightarrow> node" where
  "div_tag cls cs = Tag ''div'' [(''class'', cls)] cs"

definition document :: "node list \<Rightarrow> node" where
  "document cs = Tag ''[document]'' [] cs"

definition pagination_page :: "string \<Rightarrow> node" where
  "pagination_page txt = document [div_tag ''text-center pagination-text'' [NavigableString txt]]"

definition page_without_markers :: node where
  "page_without_markers = document [Tag ''p'' [] [NavigableString ''No results'']]"

definition page_affiliation_only :: node where
  "page_affiliation_only = document [div_tag ''affil-loc mt-2'' [NavigableString ''Univ A'']]"

definition page_anchor_without_href :: node where
  "page_anchor_without_href =
     document [div_tag ''affil-name mb-3'' [Tag ''a'' [(''name'', ''j1'')] [NavigableString ''J One'']]]"

definition page_two_journals :: node where
  "page_two_journals =
     document
       [div_tag ''affil-name mb-3''
          [NavigableString ''  '', Tag ''a'' [(''href'', ''http://j/1'')] [NavigableString ''J One '']],
        div_tag ''affil-loc mt-2'' [NavigableString '' Univ A ''],
        div_tag ''affil-name mb-3'' [NavigableString ''J Two'']]"

definition two_journals :: "journal list" where
  "two_journals =
     [\<lparr> name = ''J One'', link = ''http://j/1'', affiliation = ''Univ A'', accreditation = [] \<rparr>,
      \<lparr> name = ''J Two'', link = [], affiliation = [], accreditation = [] \<rparr>]"

text \<open>
  Sample sites and scrapers. A site answers the listed URLs and refuses every other one;
  writing the table and charting succeed.
\<close>

definition site :: "(string \<times> (string + node)) list \<Rightarrow> world" where
  "site pages =
     \<lparr> http_get = (\<lambda>url. case map_of pages url of
                            None \<Rightarrow> Inl ''404 Client Error: Not Found''
                          | Some response \<Rightarrow> response),
       to_csv = (\<lambda>_ _. None),
       charts_ok = (\<lambda>_ _. True) \<rparr>"

definition sample_scraper :: scraper where
  "sample_scraper =
     \<lparr> base_url = ''https://example.org/journals/'', keyword = ''physics'',
       filename = ''scraped_data/physics_20240101_120000/journal_data_20240101_120000.csv'',
       log_filename = ''scraped_data/physics_20240101_120000/scraping_log_20240101_120000.log'',
       viz_dir = ''scraped_data/physics_20240101_120000/visualizations'' \<rparr>"

definition later_scraper :: scraper where
  "later_scraper =
     \<lparr> base_url = ''https://example.org/journals/'', keyword = ''physics'',
       filename = ''scraped_data/physics_20240102_090000/journal_data_20240102_090000.csv'',
       log_filename = ''scraped_data/physics_20240102_090000/scraping_log_20240102_090000.log'',
       viz_dir = ''scraped_data/physics_20240102_090000/visualizations'' \<rparr>"

definition sample_site :: world where
  "sample_site =
     site [(''https://example.org/journals/?q=physics'', Inr (pagination_page ''Page 1 of 2'')),
           (''https://example.org/journals/?page=1&q=physics'', Inr page_two_journals),
           (''https://example.org/journals/?page=2&q=physics'', Inr page_two_journals)]"

definition site_second_page_down :: world where
  "site_second_page_down =
     site [(''https://example.org/journals/?q=physics'', Inr (pagination_page ''Page 1 of 2'')),
           (''https://example.org/journals/?page=1&q=physics'', Inr page_two_journals),
           (''https://example.org/journals/?page=2&q=physics'', Inl ''Read timed out'')]"

definition site_anchor_without_href :: world where
  "site_anchor_without_href =
     site [(''https://example.org/journals/?q=physics'', Inr (pagination_page ''Page 1 of 2'')),
           (''https://example.org/journals/?page=1&q=physics'', Inr page_anchor_without_href),
           (''https://example.org/journals/?page=2&q=physics'', Inr page_two_journals)]"

definition site_down :: world where
  "site_down = site []"

section \<open>The pagination reader\<close>

lemma split_from_token:
  "\<forall>c \<in> set w. \<not> isspace c \<Longrightarrow> split_from cur (w @ s) = split_from (cur @ w) s"
  by (induction w arbitrary: cur) auto

lemma split_join_space:
  "\<forall>w \<in> set ws. w \<noteq> [] \<and> (\<forall>c \<in> set w. \<not> isspace c) \<Longrightarrow> split (join_space ws) = ws"
proof (induction ws rule: join_space.induct)
  case 1
  then show ?case by (simp add: split_def)
next
  case (2 x)
  then show ?case
    using split_from_token [of x "[]" "[]"] by (simp add: split_def)
next
  case (3 x y ys)
  then have "split (join_space (y # ys)) = y # ys" by simp
  moreover have "isspace CHR '' ''" by (simp add: isspace_def)
  ultimately show ?case
    using 3(2) split_from_token [of x "[]" "CHR '' '' # join_space (y # ys)"]
    by (simp add: split_def)
qed

lemma digit_char_digit: "d < 10 \<Longrightarrow> isdigit (digit_char d)"
  by (simp add: isdigit_def digit_char_def)

lemma digit_val_digit_char: "d < 10 \<Longrightarrow> digit_val (digit_char d) = d"
  by (simp add: digit_val_def digit_char_def)

lemma isdigit_not_space: "isdigit c \<Longrightarrow> \<not> isspace c"
  by (auto simp: isdigit_def isspace_def)

lemma isdigit_not_sign: "isdigit c \<Longrightarrow> c \<noteq> CHR ''-'' \<and> c \<noteq> CHR ''+'' \<and> c \<noteq> CHR ''_''"
  by (auto simp: isdigit_def)

lemma str_nat_digits: "\<forall>c \<in> set (str_nat n). isdigit c"
proof (induction n rule: str_nat.induct)
  case (1 n)
  then show ?case
    by (subst str_nat.simps) (auto simp: digit_char_digit)
qed

lemma str_nat_nonempty: "str_nat n \<noteq> []"
  by (subst str_nat.simps) simp

lemma digits_value_snoc: "digits_value (ds @ [c]) = 10 * digits_value ds + digit_val c"
  by (simp add: digits_value_def)

lemma digits_value_str_nat: "digits_value (str_nat n) = n"
proof (induction n rule: str_nat.induct)
  case (1 n)
  show ?case
  proof (cases "n < 10")
    case True
    then show ?thesis
      by (subst str_nat.simps) (simp add: digits_value_def digit_val_digit_char)
  next
    case False
    with 1 have "digits_value (str_nat (n div 10)) = n div 10" by simp
    with False show ?thesis
      by (subst str_nat.simps) (simp add: digits_value_snoc digit_val_digit_char)
  qed
qed

lemma int_body_digits:
  "\<forall>c \<in> set ds. isdigit c \<Longrightarrow> int_body p ds = (p \<or> ds \<noteq> [])"
  by (induction ds arbitrary: p) auto

lemma dropWhile_none: "\<forall>c \<in> set xs. \<not> P c \<Longrightarrow> dropWhile P xs = xs"
  by (cases xs) auto

lemma strip_no_space: "\<forall>c \<in> set s. \<not> isspace c \<Longrightarrow> strip s = s"
  using dropWhile_none [of s isspace] dropWhile_none [of "rev s" isspace]
  by (simp add: strip_def)

lemma py_int_digits:
  assumes "ds \<noteq> []" and "\<forall>c \<in> set ds. isdigit c" and "length ds \<le> int_max_str_digits"
  shows "py_int ds = Some (int (digits_value ds))"
proof -
  from assms(2) have "strip ds = ds"
    by (intro strip_no_space) (auto dest: isdigit_not_space)
  moreover from assms(1,2) have "hd ds \<noteq> CHR ''-''" "hd ds \<noteq> CHR ''+''"
    by (cases ds; auto dest: isdigit_not_sign)+
  moreover from assms(2) have "filter isdigit ds = ds" by simp
  moreover from assms(1,2) have "int_body False ds" by (simp add: int_body_digits)
  ultimately show ?thesis using assms(3) by (simp add: py_int_def)
qed

lemma py_int_str_nat:
  "length (str_nat n) \<le> int_max_str_digits \<Longrightarrow> py_int (str_nat n) = Some (int n)"
  using py_int_digits [OF str_nat_nonempty str_nat_digits] by (simp add: digits_value_str_nat)

lemma get_pagination_Inr_iff:
  "get_pagination soup = Inr n \<longleftrightarrow>
     (\<exists>first others a b c tok more.
        find_all ''div'' ''text-center pagination-text'' soup = first # others \<and>
        split (get_text first) = a # b # c # tok # more \<and> py_int tok = Some n)"
  (is "?l \<longleftrightarrow> ?r")
proof
  assume ?l
  then obtain first others where
    f: "find_all ''div'' ''text-center pagination-text'' soup = first # others"
    by (cases "find_all ''div'' ''text-center pagination-text'' soup")
       (auto simp: get_pagination_def get_pagination_body_def item_def)
  with \<open>?l\<close> have len: "3 < length (split (get_text first))"
    and p: "py_int (split (get_text first) ! 3) = Some n"
    by (auto simp: get_pagination_def get_pagination_body_def item_def Let_def
             split: if_splits option.splits sum.splits)
  from len obtain a b c tok more where "split (get_text first) = a # b # c # tok # more"
    by (cases "split (get_text first)" rule: list.exhaust;
        simp; metis Suc_less_eq length_Cons list.exhaust list.size(3) not_less_zero numeral_3_eq_3)
  with f p show ?r by auto
next
  assume ?r
  then show ?l
    by (auto simp: get_pagination_def get_pagination_body_def item_def)
qed

lemma get_pagination_cases:
  "get_pagination soup = Inl not_found \<or> (\<exists>n. get_pagination soup = Inr n)"
  by (auto simp: get_pagination_def split: sum.splits)

text \<open>
  C1, as the code has it. \<open>get_pagination\<close> returns \<open>n\<close> exactly when the page has a
  pagination marker, the text of the first one has at least four whitespace-delimited tokens
  and the 4th token is an integer literal denoting \<open>n\<close>; in every other case it raises the
  \<open>SystemExit\<close> \<open>not_found\<close>. So on a text \<open>a b c N ...\<close>, whose 4th token is the decimal
  numeral of \<open>N\<close>, it returns \<open>N\<close>: \<open>7\<close> for \<open>Page 1 of 7\<close>, and \<open>1\<close> for
  \<open>Showing results page 1 of 7\<close>.
\<close>

theorem get_pagination_fourth_token:
  "(get_pagination soup = Inr n \<longleftrightarrow>
      (\<exists>first others a b c tok more.
         find_all ''div'' ''text-center pagination-text'' soup = first # others \<and>
         split (get_text first) = a # b # c # tok # more \<and> py_int tok = Some n)) \<and>
   (get_pagination soup = Inl not_found \<or> (\<exists>m. get_pagination soup = Inr m)) \<and>
   (\<forall>first others a b c k more.
      find_all ''div'' ''text-center pagination-text'' soup = first # others \<and>
      get_text first = join_space (a # b # c # str_nat k # more) \<and>
      (\<forall>w \<in> set (a # b # c # more). w \<noteq> [] \<and> (\<forall>ch \<in> set w. \<not> isspace ch)) \<and>
      length (str_nat k) \<le> int_max_str_digits
      \<longrightarrow> get_pagination soup = Inr (int k))"
proof (intro conjI allI impI)
  show "get_pagination soup = Inr n \<longleftrightarrow>
      (\<exists>first others a b c tok more.
         find_all ''div'' ''text-center pagination-text'' soup = first # others \<and>
         split (get_text first) = a # b # c # tok # more \<and> py_int tok = Some n)"
    by (rule get_pagination_Inr_iff)
next
  show "get_pagination soup = Inl not_found \<or> (\<exists>m. get_pagination soup = Inr m)"
    by (rule get_pagination_cases)
next
  fix first others a b c k more
  assume h: "find_all ''div'' ''text-center pagination-text'' soup = first # others \<and>
      get_text first = join_space (a # b # c # str_nat k # more) \<and>
      (\<forall>w \<in> set (a # b # c # more). w \<noteq> [] \<and> (\<forall>ch \<in> set w. \<not> isspace ch)) \<and>
      length (str_nat k) \<le> int_max_str_digits"
  then have f: "find_all ''div'' ''text-center pagination-text'' soup = first # others"
    and t: "get_text first = join_space (a # b # c # str_nat k # more)"
    and ws: "\<forall>w \<in> set (a # b # c # more). w \<noteq> [] \<and> (\<forall>ch \<in> set w. \<not> isspace ch)"
    and len: "length (str_nat k) \<le> int_max_str_digits"
    by blast+
  have "str_nat k \<noteq> [] \<and> (\<forall>ch \<in> set (str_nat k). \<not> isspace ch)"
    using str_nat_nonempty [of k] str_nat_digits [of k] isdigit_not_space by blast
  with ws have "\<forall>w \<in> set (a # b # c # str_nat k # more).
      w \<noteq> [] \<and> (\<forall>ch \<in> set w. \<not> isspace ch)"
    by simp
  then have "split (join_space (a # b # c # str_nat k # more)) = a # b # c # str_nat k # more"
    by (rule split_join_space)
  with t have s: "split (get_text first) = a # b # c # str_nat k # more"
    by simp
  have p: "py_int (str_nat k) = Some (int k)"
    using len by (rule py_int_str_nat)
  show "get_pagination soup = Inr (int k)"
    unfolding get_pagination_Inr_iff
    by (intro exI conjI) (rule f, rule s, rule p)
qed


text \<open>The text \<open>Page 1 of 7\<close> is \<open>' '.join(['Page', '1', 'of', str(7)])\<close>.\<close>

theorem get_pagination_fourth_token_witness:
  "find_all ''div'' ''text-center pagination-text'' (pagination_page ''Page 1 of 7'') =
     [div_tag ''text-center pagination-text'' [NavigableString ''Page 1 of 7'']] \<and>
   ''Page 1 of 7'' = join_space [''Page'', ''1'', ''of'', str_nat 7] \<and>
   get_pagination (pagination_page ''Page 1 of 7'') = Inr 7"
proof -
  let ?first = "div_tag ''text-center pagination-text'' [NavigableString ''Page 1 of 7'']"
  have f: "find_all ''div'' ''text-center pagination-text'' (pagination_page ''Page 1 of 7'') =
      [?first]"
    by code_simp
  have t: "get_text ?first = join_space [''Page'', ''1'', ''of'', str_nat 7]"
    by code_simp
  have j: "''Page 1 of 7'' = join_space [''Page'', ''1'', ''of'', str_nat 7]"
    by code_simp
  have w: "\<forall>w \<in> set [''Page'', ''1'', ''of'']. w \<noteq> [] \<and> (\<forall>ch \<in> set w. \<not> isspace ch)"
    by code_simp
  have l: "length (str_nat 7) \<le> int_max_str_digits"
    by code_simp
  have "find_all ''div'' ''text-center pagination-text'' (pagination_page ''Page 1 of 7'') =
        [?first] \<and>
      get_text ?first = join_space [''Page'', ''1'', ''of'', str_nat 7] \<and>
      (\<forall>w \<in> set [''Page'', ''1'', ''of'']. w \<noteq> [] \<and> (\<forall>ch \<in> set w. \<not> isspace ch)) \<and>
      length (str_nat 7) \<le> int_max_str_digits"
    using f t w l by (intro conjI)
  from get_pagination_fourth_token [of "pagination_page ''Page 1 of 7''" 7,
      THEN conjunct2, THEN conjunct2, rule_format, OF this]
  have "get_pagination (pagination_page ''Page 1 of 7'') = Inr (int 7)" .
  with f j show ?thesis by simp
qed

text \<open>
  C1 as stated fails at its own example: the 4th token of \<open>Showing results page 1 of 7\<close>
  is \<open>1\<close>, and that is what comes back, not the page count \<open>7\<close>.
\<close>

theorem get_pagination_example_counterexample:
  "split ''Showing results page 1 of 7'' = [''Showing'', ''results'', ''page'', ''1'', ''of'', ''7''] \<and>
   get_pagination (pagination_page ''Showing results page 1 of 7'') = Inr 1 \<and>
   get_pagination (pagination_page ''Showing results page 1 of 7'') \<noteq> Inr 7"
proof -
  have "split ''Showing results page 1 of 7'' = [''Showing'', ''results'', ''page'', ''1'', ''of'', ''7'']"
    by code_simp
  moreover have "get_pagination (pagination_page ''Showing results page 1 of 7'') = Inr 1"
    by code_simp
  ultimately show ?thesis by simp
qed

section \<open>The record extractor\<close>

lemma getitem_Inl: "getitem a k = Inl e \<Longrightarrow> e = KeyError k"
  by (auto simp: getitem_def split: option.splits)

lemma extract_from_Inl_href:
  "extract_from i nbs affs accs = Inl e \<Longrightarrow> e = KeyError ''href''"
  by (induction nbs arbitrary: i)
     (auto split: option.splits sum.splits dest: getitem_Inl)

lemma extract_from_length:
  "extract_from i nbs affs accs = Inr js \<Longrightarrow> length js = length nbs"
  by (induction nbs arbitrary: i js) (auto split: option.splits sum.splits)

lemma extract_from_nth:
  "extract_from i nbs affs accs = Inr js \<Longrightarrow> k < length nbs \<Longrightarrow>
     name (js ! k) = strip (get_text (nbs ! k)) \<and>
     affiliation (js ! k) = (if i + k < length affs then strip (get_text (affs ! (i + k))) else []) \<and>
     accreditation (js ! k) = (if i + k < length accs then strip (get_text (accs ! (i + k))) else []) \<and>
     (case find ''a'' (nbs ! k) of
        None \<Rightarrow> link (js ! k) = []
      | Some a \<Rightarrow> map_of (attrs a) ''href'' = Some (link (js ! k)))"
proof (induction nbs arbitrary: i js k)
  case Nil
  then show ?case by simp
next
  case (Cons nb nbs)
  from Cons.prems(1) obtain href rest where
    h: "(case find ''a'' nb of None \<Rightarrow> Inr [] | Some a \<Rightarrow> getitem a ''href'') = Inr href"
    and r: "extract_from (Suc i) nbs affs accs = Inr rest"
    and js: "js = \<lparr> name = strip (get_text nb), link = href,
               affiliation = (if i < length affs then strip (get_text (affs ! i)) else []),
               accreditation = (if i < length accs then strip (get_text (accs ! i)) else []) \<rparr> # rest"
    by (auto split: sum.splits)
  show ?case
  proof (cases k)
    case 0
    with h js show ?thesis
      by (auto simp: getitem_def split: option.splits)
  next
    case (Suc k')
    with Cons.prems(2) have "k' < length nbs" by simp
    moreover have "js ! k = rest ! k'" using Suc js by simp
    moreover have "(nb # nbs) ! k = nbs ! k'" "i + k = Suc i + k'" using Suc by simp_all
    ultimately show ?thesis using Cons.IH [OF r, of k'] by (simp split: option.splits)
  qed
qed

lemma extract_from_total:
  "\<forall>nb \<in> set nbs. has_href nb \<Longrightarrow> \<exists>js. extract_from i nbs affs accs = Inr js"
proof (induction nbs arbitrary: i)
  case Nil
  then show ?case by simp
next
  case (Cons nb nbs)
  then obtain js where "extract_from (Suc i) nbs affs accs = Inr js" by force
  moreover from Cons.prems have "has_href nb" by simp
  ultimately show ?case
    by (auto simp: has_href_def getitem_def split: option.splits)
qed

lemma extract_from_fails:
  "nb \<in> set nbs \<Longrightarrow> \<not> has_href nb \<Longrightarrow> extract_from i nbs affs accs = Inl (KeyError ''href'')"
proof (induction nbs arbitrary: i)
  case Nil
  then show ?case by simp
next
  case (Cons x nbs)
  show ?case
  proof (cases "has_href x")
    case True
    with Cons.prems have "nb \<in> set nbs" by auto
    from Cons.IH [OF this Cons.prems(2)] show ?thesis
      by (auto split: sum.splits option.splits dest: getitem_Inl)
  next
    case False
    then show ?thesis
      by (auto simp: has_href_def getitem_def split: option.splits)
  qed
qed

lemma extract_journal_data_Inr:
  "snd (extract_journal_data soup) = Inr js \<longleftrightarrow> extract_journal_data_body soup = Inr js"
  by (auto simp: extract_journal_data_def split: sum.splits)

lemma extract_journal_data_error:
  "snd (extract_journal_data soup) = Inl e \<Longrightarrow> e = not_found"
  by (auto simp: extract_journal_data_def split: sum.splits)

lemma extract_journal_data_fails:
  assumes "nb \<in> set (find_all ''div'' ''affil-name mb-3'' soup)" and "\<not> has_href nb"
  shows "extract_journal_data soup =
           ([LogError (''Error extracting journal data: '' @ [CHR 0x27] @ ''href'' @ [CHR 0x27])],
            Inl not_found)"
  using extract_from_fails [OF assms]
  by (simp add: extract_journal_data_def extract_journal_data_body_def)

text \<open>
  C2, as the code has it. On a page with \<open>k\<close> name blocks, \<open>m\<close> affiliation blocks and
  \<open>p\<close> accreditation blocks, in which every name block either has no anchor or has a first
  anchor carrying an \<open>href\<close>, \<open>extract_journal_data\<close> returns exactly \<open>k\<close> records and logs
  nothing; record \<open>i\<close> has the trimmed text of name block \<open>i\<close>, the trimmed text of
  affiliation block \<open>i\<close> when \<open>i < m\<close> and the empty string otherwise, and likewise for the
  accreditation. A shortfall of affiliation or accreditation blocks drops no record.
\<close>

theorem extract_journal_data_records:
  assumes "\<forall>nb \<in> set (find_all ''div'' ''affil-name mb-3'' soup). has_href nb"
  shows "\<exists>journals.
           extract_journal_data soup = ([], Inr journals) \<and>
           length journals = length (find_all ''div'' ''affil-name mb-3'' soup) \<and>
           (\<forall>i < length (find_all ''div'' ''affil-name mb-3'' soup).
              name (journals ! i) = strip (get_text (find_all ''div'' ''affil-name mb-3'' soup ! i)) \<and>
              affiliation (journals ! i) =
                (if i < length (find_all ''div'' ''affil-loc mt-2'' soup)
                 then strip (get_text (find_all ''div'' ''affil-loc mt-2'' soup ! i)) else []) \<and>
              accreditation (journals ! i) =
                (if i < length (find_all ''span'' ''num-stat accredited'' soup)
                 then strip (get_text (find_all ''span'' ''num-stat accredited'' soup ! i)) else []))"
proof -
  let ?names = "find_all ''div'' ''affil-name mb-3'' soup"
  let ?affs = "find_all ''div'' ''affil-loc mt-2'' soup"
  let ?accs = "find_all ''span'' ''num-stat accredited'' soup"
  from extract_from_total [OF assms] obtain js where
    js: "extract_from 0 ?names ?affs ?accs = Inr js" by blast
  have "extract_journal_data soup = ([], Inr js)"
    using js by (simp add: extract_journal_data_def extract_journal_data_body_def)
  moreover have "length js = length ?names"
    using js by (rule extract_from_length)
  moreover have "\<forall>i < length ?names.
      name (js ! i) = strip (get_text (?names ! i)) \<and>
      affiliation (js ! i) = (if i < length ?affs then strip (get_text (?affs ! i)) else []) \<and>
      accreditation (js ! i) = (if i < length ?accs then strip (get_text (?accs ! i)) else [])"
    using extract_from_nth [OF js] by simp
  ultimately show ?thesis by blast
qed

text \<open>
  The page \<open>page_two_journals\<close> has two name blocks, one affiliation block and no
  accreditation block: two records come out, the second with an empty affiliation.
\<close>

theorem extract_journal_data_records_witness:
  "list_all has_href (find_all ''div'' ''affil-name mb-3'' page_two_journals) \<and>
   length (find_all ''div'' ''affil-name mb-3'' page_two_journals) = 2 \<and>
   length (find_all ''div'' ''affil-loc mt-2'' page_two_journals) = 1 \<and>
   length (find_all ''span'' ''num-stat accredited'' page_two_journals) = 0 \<and>
   extract_journal_data page_two_journals = ([], Inr two_journals) \<and>
   (\<exists>journals. extract_journal_data page_two_journals = ([], Inr journals) \<and> length journals = 2)"
proof -
  have h: "\<forall>nb \<in> set (find_all ''div'' ''affil-name mb-3'' page_two_journals). has_href nb"
    by code_simp
  have n: "length (find_all ''div'' ''affil-name mb-3'' page_two_journals) = 2"
    by code_simp
  have "length (find_all ''div'' ''affil-loc mt-2'' page_two_journals) = 1"
    by code_simp
  moreover have "length (find_all ''span'' ''num-stat accredited'' page_two_journals) = 0"
    by code_simp
  moreover have "extract_journal_data page_two_journals = ([], Inr two_journals)"
    by code_simp
  moreover from extract_journal_data_records [OF h] n
  have "\<exists>journals. extract_journal_data page_two_journals = ([], Inr journals) \<and> length journals = 2"
    by auto
  ultimately show ?thesis using h n by (simp add: list_all_iff)
qed

text \<open>
  C2 as stated fails: a page with one name block whose anchor has no \<open>href\<close> yields no
  record at all.
\<close>

theorem extract_journal_data_records_counterexample:
  "length (find_all ''div'' ''affil-name mb-3'' page_anchor_without_href) = 1 \<and>
   snd (extract_journal_data page_anchor_without_href) = Inl not_found \<and>
   \<not> (\<exists>journals. snd (extract_journal_data page_anchor_without_href) = Inr journals \<and>
        length journals = length (find_all ''div'' ''affil-name mb-3'' page_anchor_without_href))"
proof -
  have "length (find_all ''div'' ''affil-name mb-3'' page_anchor_without_href) = 1"
    by code_simp
  moreover have "snd (extract_journal_data page_anchor_without_href) = Inl not_found"
    by code_simp
  ultimately show ?thesis by simp
qed

text \<open>
  C3, as the code has it. When no name block is found, and so in particular when the record
  markers are entirely absent, \<open>extract_journal_data\<close> returns the empty sequence and logs
  nothing. Whenever it does fail, the failure is the \<open>SystemExit\<close> that \<open>get_pagination\<close>
  raises.
\<close>

theorem extract_journal_data_no_name_blocks:
  "(find_all ''div'' ''affil-name mb-3'' soup = [] \<longrightarrow> extract_journal_data soup = ([], Inr [])) \<and>
   (\<forall>e. snd (extract_journal_data soup) = Inl e \<longrightarrow>
      e = not_found \<and> get_pagination page_without_markers = Inl e)"
proof -
  have "get_pagination page_without_markers = Inl not_found"
    by code_simp
  then show ?thesis
    by (auto simp: extract_journal_data_def extract_journal_data_body_def split: sum.splits)
qed

theorem extract_journal_data_no_name_blocks_witness:
  "find_all ''div'' ''affil-name mb-3'' page_affiliation_only = [] \<and>
   find_all ''div'' ''affil-loc mt-2'' page_affiliation_only \<noteq> [] \<and>
   extract_journal_data page_affiliation_only = ([], Inr [])"
proof -
  have h: "find_all ''div'' ''affil-name mb-3'' page_affiliation_only = []"
    by code_simp
  moreover have "find_all ''div'' ''affil-loc mt-2'' page_affiliation_only \<noteq> []"
    by code_simp
  moreover from extract_journal_data_no_name_blocks [of page_affiliation_only] h
  have "extract_journal_data page_affiliation_only = ([], Inr [])"
    by blast
  ultimately show ?thesis by blast
qed

text \<open>
  C3 as stated fails: on a page with none of the three markers the extractor returns the
  empty list; it does not abort.
\<close>

theorem extract_journal_data_no_markers_counterexample:
  "find_all ''div'' ''affil-name mb-3'' page_without_markers = [] \<and>
   find_all ''div'' ''affil-loc mt-2'' page_without_markers = [] \<and>
   find_all ''span'' ''num-stat accredited'' page_without_markers = [] \<and>
   extract_journal_data page_without_markers = ([], Inr [])"
  by code_simp

text \<open>
  C6. In the records \<open>extract_journal_data\<close> returns, the \<open>link\<close> of record \<open>i\<close> is the
  \<open>href\<close> of the first anchor below name block \<open>i\<close> when the block has an anchor, and the
  empty string when it has none.
\<close>

theorem extract_journal_data_link:
  assumes "snd (extract_journal_data soup) = Inr journals"
    and "i < length (find_all ''div'' ''affil-name mb-3'' soup)"
  shows "case find ''a'' (find_all ''div'' ''affil-name mb-3'' soup ! i) of
           None \<Rightarrow> link (journals ! i) = []
         | Some a \<Rightarrow> map_of (attrs a) ''href'' = Some (link (journals ! i))"
proof -
  from assms(1) have "extract_from 0 (find_all ''div'' ''affil-name mb-3'' soup)
      (find_all ''div'' ''affil-loc mt-2'' soup) (find_all ''span'' ''num-stat accredited'' soup)
    = Inr journals"
    by (simp add: extract_journal_data_Inr extract_journal_data_body_def)
  from extract_from_nth [OF this assms(2)] show ?thesis by simp
qed

theorem extract_journal_data_link_witness:
  "snd (extract_journal_data page_two_journals) = Inr two_journals \<and>
   find ''a'' (find_all ''div'' ''affil-name mb-3'' page_two_journals ! 0) =
     Some (Tag ''a'' [(''href'', ''http://j/1'')] [NavigableString ''J One '']) \<and>
   link (two_journals ! 0) = ''http://j/1'' \<and>
   find ''a'' (find_all ''div'' ''affil-name mb-3'' page_two_journals ! 1) = None \<and>
   link (two_journals ! 1) = []"
proof -
  have r: "snd (extract_journal_data page_two_journals) = Inr two_journals"
    by code_simp
  have n0: "0 < length (find_all ''div'' ''affil-name mb-3'' page_two_journals)"
    and n1: "1 < length (find_all ''div'' ''affil-name mb-3'' page_two_journals)"
    by code_simp+
  have a0: "find ''a'' (find_all ''div'' ''affil-name mb-3'' page_two_journals ! 0) =
      Some (Tag ''a'' [(''href'', ''http://j/1'')] [NavigableString ''J One ''])"
    by code_simp
  have a1: "find ''a'' (find_all ''div'' ''affil-name mb-3'' page_two_journals ! 1) = None"
    by code_simp
  from extract_journal_data_link [OF r n0] a0
  have "link (two_journals ! 0) = ''http://j/1''" by simp
  moreover from extract_journal_data_link [OF r n1] a1
  have "link (two_journals ! 1) = []" by simp
  ultimately show ?thesis using r a0 a1 by blast
qed

section \<open>The collection loop\<close>

lemma bind_Inl [simp]: "bind (t, Inl e) f = (t, Inl e)"
  by (simp add: bind_def)

lemma bind_Inr [simp]: "bind (t, Inr x) f = (t @ fst (f x), snd (f x))"
  by (simp add: bind_def split: prod.splits)

lemma gets_append [simp]: "gets (xs @ ys) = gets xs @ gets ys"
  by (induction xs rule: gets.induct) auto

lemma pacing_append [simp]: "pacing (xs @ ys) = pacing xs @ pacing ys"
  by (induction xs rule: pacing.induct) auto

lemma csv_payloads_append [simp]: "csv_payloads (xs @ ys) = csv_payloads xs @ csv_payloads ys"
  by (induction xs rule: csv_payloads.induct) auto

lemma csv_payloads_no_export: "list_all (\<lambda>ev. \<not> is_export ev) evs \<Longrightarrow> csv_payloads evs = []"
  by (induction evs rule: csv_payloads.induct) auto

lemma Get_in_gets: "Get u \<in> set evs \<longleftrightarrow> u \<in> set (gets evs)"
  by (induction evs rule: gets.induct) auto

lemma no_export_no_ToCsv:
  "list_all (\<lambda>ev. \<not> is_export ev) evs \<Longrightarrow> ToCsv f d \<notin> set evs"
  by (auto simp: list_all_iff)

lemma initial_url_not_page_url: "initial_url sc \<noteq> page_url sc p"
  by (simp add: initial_url_def page_url_def)

lemma page_url_not_initial_url: "page_url sc p \<noteq> initial_url sc"
  using initial_url_not_page_url [of sc p] by simp

lemma page_url_cong:
  "base_url sc1 = base_url sc2 \<Longrightarrow> keyword sc1 = keyword sc2 \<Longrightarrow> page_url sc1 = page_url sc2"
  by (rule ext) (simp add: page_url_def)

text \<open>Distinct page numbers give distinct URLs.\<close>

lemma str_nat_inj: "str_nat m = str_nat n \<Longrightarrow> m = n"
  by (metis digits_value_str_nat)

lemma str_nat_no_minus: "hd (str_nat n) \<noteq> CHR ''-''"
  using str_nat_digits [of n] str_nat_nonempty [of n] isdigit_not_sign [of "hd (str_nat n)"]
  by (cases "str_nat n") auto

lemma str_int_inj: "str_int i = str_int j \<Longrightarrow> i = j"
proof -
  assume e: "str_int i = str_int j"
  have neg: "hd (str_int k) = CHR ''-'' \<longleftrightarrow> k < 0" for k
    using str_nat_no_minus [of "nat k"] by (simp add: str_int_def)
  from e neg [of i] neg [of j] have "i < 0 \<longleftrightarrow> j < 0" by simp
  with e show "i = j"
    by (auto simp: str_int_def dest!: str_nat_inj split: if_splits)
qed

lemma page_url_inj: "page_url sc p = page_url sc q \<Longrightarrow> p = q"
  by (auto simp: page_url_def dest: str_int_inj)

text \<open>One iteration of the loop, by cases on what the site answers and what extraction does.\<close>

lemma scrape_pages_Cons:
  "scrape_pages sc w T (p # ps) acc =
     (case http_get w (page_url sc p) of
        Inl msg \<Rightarrow>
          ([LogInfo (''Scraping page '' @ str_int p @ ''/'' @ str_int T), Get (page_url sc p),
            LogError (''Error fetching page '' @ page_url sc p @ '': '' @ msg)],
           Inl (SystemExit (''An error occurred! Log file has been written to '' @ log_filename sc)))
      | Inr soup \<Rightarrow>
          (case extract_journal_data_body soup of
             Inl e \<Rightarrow>
               ([LogInfo (''Scraping page '' @ str_int p @ ''/'' @ str_int T), Get (page_url sc p),
                 LogError (''Error extracting journal data: '' @ str_key_error e)],
                Inl not_found)
           | Inr journals \<Rightarrow>
               (LogInfo (''Scraping page '' @ str_int p @ ''/'' @ str_int T) # Get (page_url sc p) #
                  Sleep 2 # fst (scrape_pages sc w T ps (acc @ journals)),
                snd (scrape_pages sc w T ps (acc @ journals)))))"
  by (simp add: emit_def fetch_page_def extract_journal_data_def split: sum.splits)

declare scrape_pages.simps(2) [simp del]

lemma scrape_pages_Inr_iff:
  "snd (scrape_pages sc w T ps acc) = Inr all \<longleftrightarrow>
     list_all (page_ok sc w) ps \<and> all = acc @ concat (map (page_journals sc w) ps)"
proof (induction ps arbitrary: acc)
  case Nil
  then show ?case by auto
next
  case (Cons p ps)
  show ?case
    unfolding scrape_pages_Cons
    by (auto simp: Cons.IH page_ok_def page_journals_def split: sum.splits)
qed

lemma scrape_pages_trace_ok:
  "list_all (page_ok sc w) ps \<Longrightarrow>
   fst (scrape_pages sc w T ps acc) =
     concat (map (\<lambda>p. [LogInfo (''Scraping page '' @ str_int p @ ''/'' @ str_int T),
                        Get (page_url sc p), Sleep 2]) ps)"
proof (induction ps arbitrary: acc)
  case Nil
  then show ?case by simp
next
  case (Cons p ps)
  then show ?case
    unfolding scrape_pages_Cons
    by (auto simp: page_ok_def split: sum.splits)
qed

lemma scrape_pages_gets_ok:
  "list_all (page_ok sc w) ps \<Longrightarrow>
   gets (fst (scrape_pages sc w T ps acc)) = map (page_url sc) ps"
  by (induction ps) (simp_all add: scrape_pages_trace_ok)

lemma scrape_pages_no_export:
  "list_all (\<lambda>ev. \<not> is_export ev) (fst (scrape_pages sc w T ps acc))"
proof (induction ps arbitrary: acc)
  case Nil
  then show ?case by simp
next
  case (Cons p ps)
  then show ?case
    unfolding scrape_pages_Cons
    by (auto split: sum.splits)
qed

lemma scrape_pages_fetch_fails:
  "Get u \<in> set (fst (scrape_pages sc w T ps acc)) \<Longrightarrow> http_get w u = Inl msg \<Longrightarrow>
   snd (scrape_pages sc w T ps acc) =
     Inl (SystemExit (''An error occurred! Log file has been written to '' @ log_filename sc)) \<and>
   (\<exists>pre. fst (scrape_pages sc w T ps acc) =
      pre @ [Get u, LogError (''Error fetching page '' @ u @ '': '' @ msg)])"
proof (induction ps arbitrary: acc)
  case Nil
  then show ?case by simp
next
  case (Cons p ps)
  show ?case
  proof (cases "http_get w (page_url sc p)")
    case (Inl m)
    with Cons.prems have "u = page_url sc p" "m = msg"
      by (auto simp: scrape_pages_Cons)
    with Inl show ?thesis
      by (auto simp: scrape_pages_Cons intro: exI [of _ "[LogInfo (''Scraping page '' @ str_int p @ ''/'' @ str_int T)]"])
  next
    case (Inr soup)
    show ?thesis
    proof (cases "extract_journal_data_body soup")
      case (Inl e)
      with Inr Cons.prems show ?thesis
        by (auto simp: scrape_pages_Cons)
    next
      case ok: (Inr journals)
      with Inr Cons.prems have "Get u \<in> set (fst (scrape_pages sc w T ps (acc @ journals)))"
        by (auto simp: scrape_pages_Cons)
      from Cons.IH [OF this Cons.prems(2)] obtain pre where
        "snd (scrape_pages sc w T ps (acc @ journals)) =
           Inl (SystemExit (''An error occurred! Log file has been written to '' @ log_filename sc))"
        "fst (scrape_pages sc w T ps (acc @ journals)) =
           pre @ [Get u, LogError (''Error fetching page '' @ u @ '': '' @ msg)]"
        by blast
      with Inr ok show ?thesis
        by (auto simp: scrape_pages_Cons
            intro: exI [of _ "LogInfo (''Scraping page '' @ str_int p @ ''/'' @ str_int T) #
                 Get (page_url sc p) # Sleep 2 # pre"])
    qed
  qed
qed

lemma scrape_pages_extract_fails:
  "Get u \<in> set (fst (scrape_pages sc w T ps acc)) \<Longrightarrow> http_get w u = Inr soup \<Longrightarrow>
   extract_journal_data_body soup = Inl e \<Longrightarrow>
   snd (scrape_pages sc w T ps acc) = Inl not_found"
proof (induction ps arbitrary: acc)
  case Nil
  then show ?case by simp
next
  case (Cons p ps)
  show ?case
  proof (cases "http_get w (page_url sc p)")
    case (Inl m)
    with Cons.prems show ?thesis
      by (auto simp: scrape_pages_Cons)
  next
    case (Inr soup')
    show ?thesis
    proof (cases "extract_journal_data_body soup'")
      case (Inl e')
      with Inr show ?thesis
        by (simp add: scrape_pages_Cons)
    next
      case ok: (Inr journals)
      with Inr Cons.prems have "Get u \<in> set (fst (scrape_pages sc w T ps (acc @ journals)))"
        by (auto simp: scrape_pages_Cons)
      from Cons.IH [OF this Cons.prems(2,3)] Inr ok show ?thesis
        by (simp add: scrape_pages_Cons)
    qed
  qed
qed

lemma scrape_pages_pacing:
  "pacing (fst (scrape_pages sc w T ps acc)) =
     concat (map (\<lambda>p. [Get (page_url sc p), Sleep 2]) (takeWhile (page_ok sc w) ps)) @
     map (\<lambda>p. Get (page_url sc p)) (take 1 (dropWhile (page_ok sc w) ps))"
proof (induction ps arbitrary: acc)
  case Nil
  then show ?case by simp
next
  case (Cons p ps)
  then show ?case
    unfolding scrape_pages_Cons
    by (auto simp: page_ok_def split: sum.splits)
qed

lemma page_ok_extract:
  "page_ok sc w p \<Longrightarrow>
   \<exists>soup. http_get w (page_url sc p) = Inr soup \<and>
     extract_journal_data soup = ([], Inr (page_journals sc w p))"
  by (auto simp: page_ok_def page_journals_def extract_journal_data_def split: sum.splits)

lemma page_ok_update:
  "page_ok sc (w\<lparr>http_get := (http_get w)(initial_url sc := r)\<rparr>) = page_ok sc w"
  by (simp add: page_ok_def fun_eq_iff page_url_not_initial_url)

lemma page_journals_update:
  "page_journals sc (w\<lparr>http_get := (http_get w)(initial_url sc := r)\<rparr>) = page_journals sc w"
  by (simp add: page_journals_def fun_eq_iff page_url_not_initial_url)

lemma count_list_concat:
  "count_list (concat xss) x = sum_list (map (\<lambda>xs. count_list xs x) xss)"
  by (induction xss) simp_all

section \<open>The driver\<close>

text \<open>\<open>run\<close>, by cases on the discovery fetch, the page count and the outcome of the loop.\<close>

lemma run_unfold:
  "run sc w =
     (case http_get w (initial_url sc) of
        Inl msg \<Rightarrow>
          ([Get (initial_url sc),
            LogError (''Error fetching page '' @ initial_url sc @ '': '' @ msg)],
           Inl (SystemExit (''An error occurred! Log file has been written to '' @ log_filename sc)))
      | Inr soup0 \<Rightarrow>
          (case get_pagination soup0 of
             Inl e \<Rightarrow> ([Get (initial_url sc)], Inl e)
           | Inr N \<Rightarrow>
               (case snd (scrape_pages sc w N [1..N] []) of
                  Inl e \<Rightarrow>
                    (Get (initial_url sc) # start_message N # fst (scrape_pages sc w N [1..N] []),
                     Inl e)
                | Inr all_journals \<Rightarrow>
                    (Get (initial_url sc) # start_message N # fst (scrape_pages sc w N [1..N] []) @
                       fst (finalize sc w all_journals),
                     snd (finalize sc w all_journals)))))"
proof (cases "http_get w (initial_url sc)")
  case (Inl msg)
  then show ?thesis
    by (simp add: run_def fetch_page_def)
next
  case (Inr soup0)
  show ?thesis
  proof (cases "get_pagination soup0")
    case (Inl e)
    with Inr show ?thesis
      by (simp add: run_def fetch_page_def)
  next
    case N: (Inr N)
    obtain t r where s: "scrape_pages sc w N [1..N] [] = (t, r)"
      by (cases "scrape_pages sc w N [1..N] []")
    show ?thesis
    proof (cases r)
      case (Inl e)
      with Inr N s show ?thesis
        by (simp add: run_def fetch_page_def emit_def start_message_def)
    next
      case all: (Inr all_journals)
      with Inr N s show ?thesis
        by (simp add: run_def fetch_page_def emit_def start_message_def finalize_def)
    qed
  qed
qed

lemma finalize_trace:
  "\<exists>rest. fst (finalize sc w all_journals) = ToCsv (filename sc) all_journals # rest \<and>
     csv_payloads rest = [] \<and> gets rest = [] \<and> pacing rest = [] \<and>
     list_all (\<lambda>ev. \<forall>f d. ev \<noteq> ToCsv f d) rest"
  by (auto simp: finalize_def save_to_csv_def visualize_data_def split: option.splits)

lemma finalize_Inr:
  "snd (finalize sc w all_journals) = Inr () \<longleftrightarrow>
     to_csv w (filename sc) all_journals = None \<and> charts_ok w (filename sc) (viz_dir sc)"
  by (auto simp: finalize_def save_to_csv_def visualize_data_def split: option.splits)

lemma csv_payloads_finalize [simp]: "csv_payloads (fst (finalize sc w all_journals)) = [all_journals]"
  using finalize_trace [of sc w all_journals] by auto

lemma gets_finalize [simp]: "gets (fst (finalize sc w all_journals)) = []"
  using finalize_trace [of sc w all_journals] by auto

lemma pacing_finalize [simp]: "pacing (fst (finalize sc w all_journals)) = []"
  using finalize_trace [of sc w all_journals] by auto

lemma ToCsv_finalize:
  "ToCsv f d \<in> set (fst (finalize sc w all_journals)) \<longleftrightarrow> f = filename sc \<and> d = all_journals"
  by (auto simp: finalize_def save_to_csv_def visualize_data_def split: option.splits)

lemma Get_not_in_finalize: "Get u \<notin> set (fst (finalize sc w all_journals))"
  by (simp add: Get_in_gets)

lemma run_ToCsv_iff:
  "ToCsv f data \<in> set (fst (run sc w)) \<longleftrightarrow>
     (\<exists>soup0 N. http_get w (initial_url sc) = Inr soup0 \<and> get_pagination soup0 = Inr N \<and>
        list_all (page_ok sc w) [1..N] \<and> f = filename sc \<and>
        data = concat (map (page_journals sc w) [1..N]))"
proof (cases "http_get w (initial_url sc)")
  case (Inl msg)
  then show ?thesis by (simp add: run_unfold)
next
  case (Inr soup0)
  show ?thesis
  proof (cases "get_pagination soup0")
    case (Inl e)
    with Inr show ?thesis by (simp add: run_unfold)
  next
    case N: (Inr N)
    note ne = no_export_no_ToCsv [OF scrape_pages_no_export, of f data sc w N "[1..N]" "[]"]
    show ?thesis
    proof (cases "snd (scrape_pages sc w N [1..N] [])")
      case (Inl e)
      then have "\<not> list_all (page_ok sc w) [1..N]"
        using scrape_pages_Inr_iff [of sc w N "[1..N]" "[]"] by auto
      with Inr N Inl ne show ?thesis
        by (simp add: run_unfold start_message_def)
    next
      case all: (Inr all_journals)
      then have "list_all (page_ok sc w) [1..N]"
        and "all_journals = concat (map (page_journals sc w) [1..N])"
        using scrape_pages_Inr_iff [of sc w N "[1..N]" "[]" all_journals] by auto
      with Inr N all ne show ?thesis
        by (auto simp: run_unfold start_message_def ToCsv_finalize)
    qed
  qed
qed

lemma run_success_reaches_csv:
  assumes "snd (run sc w) = Inr ()"
  shows "\<exists>data. ToCsv (filename sc) data \<in> set (fst (run sc w))"
proof -
  from assms obtain soup0 where s: "http_get w (initial_url sc) = Inr soup0"
    by (cases "http_get w (initial_url sc)") (auto simp: run_unfold)
  with assms obtain N where n: "get_pagination soup0 = Inr N"
    by (cases "get_pagination soup0") (auto simp: run_unfold)
  with assms s obtain all_journals where a: "snd (scrape_pages sc w N [1..N] []) = Inr all_journals"
    by (cases "snd (scrape_pages sc w N [1..N] [])") (auto simp: run_unfold)
  with s n show ?thesis
    by (auto simp: run_unfold ToCsv_finalize)
qed

lemma run_collect_fails:
  assumes "http_get w (initial_url sc) = Inr soup0" and "get_pagination soup0 = Inr N"
    and "snd (scrape_pages sc w N [1..N] []) = Inl e"
  shows "snd (run sc w) = Inl e"
    and "fst (run sc w) = Get (initial_url sc) # start_message N # fst (scrape_pages sc w N [1..N] [])"
    and "list_all (\<lambda>ev. \<not> is_export ev) (fst (run sc w))"
  using assms scrape_pages_no_export [of sc w N "[1..N]" "[]"]
  by (simp_all add: run_unfold start_message_def)

lemma run_Get_cases:
  assumes "Get u \<in> set (fst (run sc w))"
  shows "u = initial_url sc \<or>
    (\<exists>soup0 N. http_get w (initial_url sc) = Inr soup0 \<and> get_pagination soup0 = Inr N \<and>
       Get u \<in> set (fst (scrape_pages sc w N [1..N] [])))"
proof (cases "http_get w (initial_url sc)")
  case (Inl msg)
  with assms show ?thesis by (simp add: run_unfold)
next
  case (Inr soup0)
  show ?thesis
  proof (cases "get_pagination soup0")
    case (Inl e)
    with Inr assms show ?thesis by (simp add: run_unfold)
  next
    case N: (Inr N)
    with Inr assms show ?thesis
      by (cases "snd (scrape_pages sc w N [1..N] [])")
         (auto simp: run_unfold start_message_def Get_not_in_finalize)
  qed
qed

lemma run_extract_fails:
  assumes "Get (page_url sc p) \<in> set (fst (run sc w))"
    and "http_get w (page_url sc p) = Inr soup"
    and "extract_journal_data_body soup = Inl e"
  shows "snd (run sc w) = Inl not_found \<and> list_all (\<lambda>ev. \<not> is_export ev) (fst (run sc w))"
proof -
  from run_Get_cases [OF assms(1)] initial_url_not_page_url [of sc p] obtain soup0 N where
    s: "http_get w (initial_url sc) = Inr soup0" and n: "get_pagination soup0 = Inr N"
    and g: "Get (page_url sc p) \<in> set (fst (scrape_pages sc w N [1..N] []))"
    by metis
  from scrape_pages_extract_fails [OF g assms(2,3)]
  have "snd (scrape_pages sc w N [1..N] []) = Inl not_found" .
  from run_collect_fails [OF s n this] show ?thesis by simp
qed

lemma run_csv_payloads:
  "csv_payloads (fst (run sc w)) =
     (case http_get w (initial_url sc) of
        Inl _ \<Rightarrow> []
      | Inr soup0 \<Rightarrow>
          (case get_pagination soup0 of
             Inl _ \<Rightarrow> []
           | Inr N \<Rightarrow>
               if list_all (page_ok sc w) [1..N]
               then [concat (map (page_journals sc w) [1..N])] else []))"
proof (cases "http_get w (initial_url sc)")
  case (Inl msg)
  then show ?thesis by (simp add: run_unfold)
next
  case (Inr soup0)
  show ?thesis
  proof (cases "get_pagination soup0")
    case (Inl e)
    with Inr show ?thesis by (simp add: run_unfold)
  next
    case N: (Inr N)
    note ne = csv_payloads_no_export [OF scrape_pages_no_export, of sc w N "[1..N]" "[]"]
    show ?thesis
    proof (cases "snd (scrape_pages sc w N [1..N] [])")
      case (Inl e)
      then have "\<not> list_all (page_ok sc w) [1..N]"
        using scrape_pages_Inr_iff [of sc w N "[1..N]" "[]"] by auto
      with Inr N Inl ne show ?thesis
        by (simp add: run_unfold start_message_def)
    next
      case all: (Inr all_journals)
      then have "list_all (page_ok sc w) [1..N]"
        and "all_journals = concat (map (page_journals sc w) [1..N])"
        using scrape_pages_Inr_iff [of sc w N "[1..N]" "[]" all_journals] by auto
      with Inr N all ne show ?thesis
        by (simp add: run_unfold start_message_def)
    qed
  qed
qed

lemma run_gets_ok:
  assumes "http_get w (initial_url sc) = Inr soup0" and "get_pagination soup0 = Inr N"
    and "list_all (page_ok sc w) [1..N]"
  shows "gets (fst (run sc w)) = initial_url sc # map (page_url sc) [1..N]"
proof -
  from assms(3) obtain all_journals where
    "snd (scrape_pages sc w N [1..N] []) = Inr all_journals"
    using scrape_pages_Inr_iff [of sc w N "[1..N]" "[]"] by blast
  with assms show ?thesis
    by (simp add: run_unfold start_message_def scrape_pages_gets_ok)
qed

lemma run_pacing:
  assumes "http_get w (initial_url sc) = Inr soup0" and "get_pagination soup0 = Inr N"
  shows "pacing (fst (run sc w)) = Get (initial_url sc) # pacing (fst (scrape_pages sc w N [1..N] []))"
  using assms
  by (cases "snd (scrape_pages sc w N [1..N] [])") (simp_all add: run_unfold start_message_def)

text \<open>
  No URL is requested twice in a run, so that one answer per URL in \<open>world\<close> covers every
  behaviour of the site during the run.
\<close>

lemma scrape_pages_gets:
  "gets (fst (scrape_pages sc w T ps acc)) =
     map (page_url sc) (takeWhile (page_ok sc w) ps @ take 1 (dropWhile (page_ok sc w) ps))"
proof (induction ps arbitrary: acc)
  case Nil
  then show ?case by simp
next
  case (Cons p ps)
  then show ?case
    unfolding scrape_pages_Cons
    by (auto simp: page_ok_def split: sum.splits)
qed

lemma distinct_takeWhile_take_dropWhile:
  "distinct xs \<Longrightarrow> distinct (takeWhile P xs @ take 1 (dropWhile P xs))"
  by (induction xs) (auto dest: set_takeWhileD in_set_takeD set_dropWhileD)

lemma scrape_pages_gets_distinct:
  "distinct ps \<Longrightarrow> distinct (gets (fst (scrape_pages sc w T ps acc)))"
  unfolding scrape_pages_gets
  by (intro iffD2 [OF distinct_map] conjI distinct_takeWhile_take_dropWhile)
     (auto simp: inj_on_def dest: page_url_inj)

lemma scrape_pages_gets_not_initial:
  "initial_url sc \<notin> set (gets (fst (scrape_pages sc w T ps acc)))"
  unfolding scrape_pages_gets using initial_url_not_page_url [of sc] by auto

lemma run_requests_distinct: "distinct (gets (fst (run sc w)))"
proof (cases "http_get w (initial_url sc)")
  case (Inl msg)
  then show ?thesis by (simp add: run_unfold)
next
  case (Inr soup0)
  show ?thesis
  proof (cases "get_pagination soup0")
    case (Inl e)
    with Inr show ?thesis by (simp add: run_unfold)
  next
    case N: (Inr N)
    have "distinct (gets (fst (scrape_pages sc w N [1..N] [])))"
      by (rule scrape_pages_gets_distinct) simp
    with Inr N scrape_pages_gets_not_initial [of sc w N "[1..N]" "[]"] show ?thesis
      by (cases "snd (scrape_pages sc w N [1..N] [])")
         (simp_all add: run_unfold start_message_def)
  qed
qed

text \<open>
  C4. When the collection of a run succeeds, so that the accumulated list \<open>data\<close> is handed
  to \<open>save_to_csv\<close>, the first page gave a page count \<open>N\<close>, every page \<open>1..N\<close> was fetched
  and extracted without error, and \<open>data\<close> is the concatenation of the pages' records in
  page order, each page's records in extraction order. Its length is the sum of the pages'
  record counts and every record occurs as often as on all pages together: nothing is
  deduplicated.
\<close>

theorem run_accumulates_pages_in_order:
  assumes "ToCsv f data \<in> set (fst (run sc w))"
  shows "\<exists>soup0 N.
           http_get w (initial_url sc) = Inr soup0 \<and> get_pagination soup0 = Inr N \<and>
           (\<forall>p \<in> set [1..N]. \<exists>soup. http_get w (page_url sc p) = Inr soup \<and>
              extract_journal_data soup = ([], Inr (page_journals sc w p))) \<and>
           data = concat (map (page_journals sc w) [1..N]) \<and>
           length data = sum_list (map (\<lambda>p. length (page_journals sc w p)) [1..N]) \<and>
           (\<forall>j. count_list data j =
              sum_list (map (\<lambda>p. count_list (page_journals sc w p) j) [1..N]))"
proof -
  from assms obtain soup0 N where
    s: "http_get w (initial_url sc) = Inr soup0" and n: "get_pagination soup0 = Inr N"
    and ok: "list_all (page_ok sc w) [1..N]"
    and d: "data = concat (map (page_journals sc w) [1..N])"
    unfolding run_ToCsv_iff by blast
  from ok have "\<forall>p \<in> set [1..N]. \<exists>soup. http_get w (page_url sc p) = Inr soup \<and>
      extract_journal_data soup = ([], Inr (page_journals sc w p))"
    by (auto simp: list_all_iff dest: page_ok_extract)
  moreover from d have "length data = sum_list (map (\<lambda>p. length (page_journals sc w p)) [1..N])"
    by (simp add: length_concat comp_def)
  moreover from d have "\<forall>j. count_list data j =
      sum_list (map (\<lambda>p. count_list (page_journals sc w p) j) [1..N])"
    by (simp add: count_list_concat comp_def)
  ultimately show ?thesis using s n d by blast
qed

text \<open>
  On \<open>sample_site\<close> both pages carry the same two records; the collection has each of them
  twice.
\<close>

theorem run_accumulates_pages_in_order_witness:
  "ToCsv (filename sample_scraper) (two_journals @ two_journals)
     \<in> set (fst (run sample_scraper sample_site)) \<and>
   count_list (two_journals @ two_journals) (hd two_journals) = 2 \<and>
   (\<exists>soup0 N.
      http_get sample_site (initial_url sample_scraper) = Inr soup0 \<and>
      get_pagination soup0 = Inr N \<and>
      two_journals @ two_journals =
        concat (map (page_journals sample_scraper sample_site) [1..N]) \<and>
      length (two_journals @ two_journals) =
        sum_list (map (\<lambda>p. length (page_journals sample_scraper sample_site p)) [1..N]))"
proof -
  have h: "ToCsv (filename sample_scraper) (two_journals @ two_journals)
      \<in> set (fst (run sample_scraper sample_site))"
    by code_simp
  have c: "count_list (two_journals @ two_journals) (hd two_journals) = 2"
    by code_simp
  from run_accumulates_pages_in_order [OF h] h c show ?thesis
    by blast
qed

text \<open>
  C5. If a request that the run makes, for the discovery page or for any page of the loop,
  fails in transport or with an HTTP error, the run ends there with the \<open>SystemExit\<close> of
  \<open>fetch_page\<close>: the failed request and its log entry are the last events, and no export,
  chart or console-print step is in the trace.
\<close>

theorem run_transport_error_halts:
  assumes "Get url \<in> set (fst (run sc w))" and "http_get w url = Inl msg"
  shows "snd (run sc w) =
           Inl (SystemExit (''An error occurred! Log file has been written to '' @ log_filename sc)) \<and>
         (\<exists>before. fst (run sc w) =
            before @ [Get url, LogError (''Error fetching page '' @ url @ '': '' @ msg)]) \<and>
         list_all (\<lambda>ev. \<not> is_export ev) (fst (run sc w))"
proof (cases "url = initial_url sc")
  case True
  with assms(2) show ?thesis
    by (auto simp: run_unfold)
next
  case False
  with run_Get_cases [OF assms(1)] obtain soup0 N where
    s: "http_get w (initial_url sc) = Inr soup0" and n: "get_pagination soup0 = Inr N"
    and g: "Get url \<in> set (fst (scrape_pages sc w N [1..N] []))"
    by blast
  from scrape_pages_fetch_fails [OF g assms(2)] obtain pre where
    r: "snd (scrape_pages sc w N [1..N] []) =
          Inl (SystemExit (''An error occurred! Log file has been written to '' @ log_filename sc))"
    and t: "fst (scrape_pages sc w N [1..N] []) =
          pre @ [Get url, LogError (''Error fetching page '' @ url @ '': '' @ msg)]"
    by blast
  from run_collect_fails [OF s n r] t
  have "fst (run sc w) = (Get (initial_url sc) # start_message N # pre) @
      [Get url, LogError (''Error fetching page '' @ url @ '': '' @ msg)]"
    by simp
  with run_collect_fails [OF s n r] show ?thesis
    by blast
qed

text \<open>A failure on the second page, and a failure on the discovery page.\<close>

theorem run_transport_error_halts_witness:
  "Get ''https://example.org/journals/?page=2&q=physics''
     \<in> set (fst (run sample_scraper site_second_page_down)) \<and>
   http_get site_second_page_down ''https://example.org/journals/?page=2&q=physics'' =
     Inl ''Read timed out'' \<and>
   snd (run sample_scraper site_second_page_down) =
     Inl (SystemExit (''An error occurred! Log file has been written to '' @
            log_filename sample_scraper)) \<and>
   list_all (\<lambda>ev. \<not> is_export ev) (fst (run sample_scraper site_second_page_down)) \<and>
   Get (initial_url sample_scraper) \<in> set (fst (run sample_scraper site_down)) \<and>
   http_get site_down (initial_url sample_scraper) = Inl ''404 Client Error: Not Found'' \<and>
   snd (run sample_scraper site_down) =
     Inl (SystemExit (''An error occurred! Log file has been written to '' @
            log_filename sample_scraper)) \<and>
   list_all (\<lambda>ev. \<not> is_export ev) (fst (run sample_scraper site_down))"
proof -
  have g2: "Get ''https://example.org/journals/?page=2&q=physics''
      \<in> set (fst (run sample_scraper site_second_page_down))"
    by code_simp
  have f2: "http_get site_second_page_down ''https://example.org/journals/?page=2&q=physics'' =
      Inl ''Read timed out''"
    by code_simp
  have g0: "Get (initial_url sample_scraper) \<in> set (fst (run sample_scraper site_down))"
    by code_simp
  have f0: "http_get site_down (initial_url sample_scraper) = Inl ''404 Client Error: Not Found''"
    by code_simp
  from run_transport_error_halts [OF g2 f2] run_transport_error_halts [OF g0 f0] g2 f2 g0 f0
  show ?thesis by blast
qed

text \<open>
  C7. Once the page count \<open>N\<close> is known, the requests and waits of the run are: the
  discovery request, then for every page whose iteration completes its request followed by
  one wait of 2, then at most one more request, that of the page on which the run aborts.
  When every iteration completes, each of the pages \<open>1..N\<close>, the first and the last
  included, is followed by exactly one wait of 2, so a wait lies between any two consecutive
  page requests of the loop.
\<close>

theorem run_paces_every_page:
  assumes "http_get w (initial_url sc) = Inr soup0" and "get_pagination soup0 = Inr N"
  shows "pacing (fst (run sc w)) =
           Get (initial_url sc) #
           concat (map (\<lambda>p. [Get (page_url sc p), Sleep 2]) (takeWhile (page_ok sc w) [1..N])) @
           map (\<lambda>p. Get (page_url sc p)) (take 1 (dropWhile (page_ok sc w) [1..N])) \<and>
         (list_all (page_ok sc w) [1..N] \<longrightarrow>
            pacing (fst (run sc w)) =
              Get (initial_url sc) # concat (map (\<lambda>p. [Get (page_url sc p), Sleep 2]) [1..N]))"
proof -
  have p: "pacing (fst (run sc w)) =
           Get (initial_url sc) #
           concat (map (\<lambda>p. [Get (page_url sc p), Sleep 2]) (takeWhile (page_ok sc w) [1..N])) @
           map (\<lambda>p. Get (page_url sc p)) (take 1 (dropWhile (page_ok sc w) [1..N]))"
    by (simp add: run_pacing [OF assms] scrape_pages_pacing)
  show ?thesis
  proof (intro conjI impI)
    show "pacing (fst (run sc w)) =
           Get (initial_url sc) #
           concat (map (\<lambda>p. [Get (page_url sc p), Sleep 2]) (takeWhile (page_ok sc w) [1..N])) @
           map (\<lambda>p. Get (page_url sc p)) (take 1 (dropWhile (page_ok sc w) [1..N]))"
      by (rule p)
  next
    assume "list_all (page_ok sc w) [1..N]"
    then have "takeWhile (page_ok sc w) [1..N] = [1..N]" "dropWhile (page_ok sc w) [1..N] = []"
      by (simp_all add: list_all_iff)
    with p show "pacing (fst (run sc w)) =
        Get (initial_url sc) # concat (map (\<lambda>p. [Get (page_url sc p), Sleep 2]) [1..N])"
      by simp
  qed
qed

theorem run_paces_every_page_witness:
  "pacing (fst (run sample_scraper sample_site)) =
     [Get ''https://example.org/journals/?q=physics'',
      Get ''https://example.org/journals/?page=1&q=physics'', Sleep 2,
      Get ''https://example.org/journals/?page=2&q=physics'', Sleep 2]"
proof -
  have s: "http_get sample_site (initial_url sample_scraper) = Inr (pagination_page ''Page 1 of 2'')"
    by code_simp
  have n: "get_pagination (pagination_page ''Page 1 of 2'') = Inr 2"
    by code_simp
  have ok: "list_all (page_ok sample_scraper sample_site) [1..2]"
    by code_simp
  have e: "Get (initial_url sample_scraper) #
      concat (map (\<lambda>p. [Get (page_url sample_scraper p), Sleep 2]) [1..2]) =
     [Get ''https://example.org/journals/?q=physics'',
      Get ''https://example.org/journals/?page=1&q=physics'', Sleep 2,
      Get ''https://example.org/journals/?page=2&q=physics'', Sleep 2]"
    by code_simp
  from run_paces_every_page [OF s n] ok
  have "pacing (fst (run sample_scraper sample_site)) =
      Get (initial_url sample_scraper) #
      concat (map (\<lambda>p. [Get (page_url sample_scraper p), Sleep 2]) [1..2])"
    by blast
  with e show ?thesis by simp
qed

text \<open>
  C8. Two runs with the same base URL and keyword against a site that answers the same,
  whatever their timestamp-derived file names and whatever the export steps do, hand the same
  records to \<open>to_csv\<close>; so whatever function \<open>render\<close> of the records the written content
  is, the content is the same.
\<close>

theorem run_csv_content_repeatable:
  assumes "base_url sc1 = base_url sc2" and "keyword sc1 = keyword sc2"
    and "http_get w1 = http_get w2"
  shows "map render (csv_payloads (fst (run sc1 w1))) =
         map render (csv_payloads (fst (run sc2 w2)))"
proof -
  have "page_url sc1 = page_url sc2"
    using assms(1,2) by (rule page_url_cong)
  then have "page_ok sc1 w1 = page_ok sc2 w2" "page_journals sc1 w1 = page_journals sc2 w2"
    using assms(3) by (auto simp: page_ok_def page_journals_def fun_eq_iff)
  moreover have "initial_url sc1 = initial_url sc2"
    using assms(1,2) by (simp add: initial_url_def)
  ultimately have "csv_payloads (fst (run sc1 w1)) = csv_payloads (fst (run sc2 w2))"
    using assms(3) by (simp add: run_csv_payloads split: sum.splits)
  then show ?thesis by simp
qed

theorem run_csv_content_repeatable_witness:
  "filename sample_scraper \<noteq> filename later_scraper \<and>
   csv_payloads (fst (run sample_scraper sample_site)) =
     csv_payloads (fst (run later_scraper sample_site)) \<and>
   csv_payloads (fst (run sample_scraper sample_site)) = [two_journals @ two_journals]"
proof -
  have b: "base_url sample_scraper = base_url later_scraper"
    and k: "keyword sample_scraper = keyword later_scraper"
    by code_simp+
  have f: "filename sample_scraper \<noteq> filename later_scraper"
    by code_simp
  have c: "csv_payloads (fst (run sample_scraper sample_site)) = [two_journals @ two_journals]"
    by code_simp
  have w: "http_get sample_site = http_get sample_site"
    by (rule refl)
  from run_csv_content_repeatable [OF b k w, of "\<lambda>data. data"]
  have "csv_payloads (fst (run sample_scraper sample_site)) =
      csv_payloads (fst (run later_scraper sample_site))"
    by simp
  with f c show ?thesis by blast
qed

text \<open>
  C9. When the collection of a run succeeds with page count \<open>N\<close>, the requests made are the
  discovery URL followed by the page URLs of \<open>1..N\<close> in order, \<open>N + 1\<close> requests for a
  count \<open>N \<ge> 0\<close>, all to different URLs; the discovery URL differs from the URL of page 1
  and of every other page;
  and the collection is built from the pages of the loop only: another discovery page with
  the same page count gives the same collection.
\<close>

theorem run_discovery_fetch_gives_only_the_count:
  assumes "ToCsv f data \<in> set (fst (run sc w))"
  shows "\<exists>soup0 N.
           http_get w (initial_url sc) = Inr soup0 \<and> get_pagination soup0 = Inr N \<and>
           gets (fst (run sc w)) = initial_url sc # map (page_url sc) [1..N] \<and>
           length (gets (fst (run sc w))) = nat N + 1 \<and>
           (0 \<le> N \<longrightarrow> int (length (gets (fst (run sc w)))) = N + 1) \<and>
           initial_url sc \<noteq> page_url sc 1 \<and>
           initial_url sc \<notin> set (map (page_url sc) [1..N]) \<and>
           distinct (gets (fst (run sc w))) \<and>
           data = concat (map (page_journals sc w) [1..N]) \<and>
           (\<forall>soup0'. get_pagination soup0' = Inr N \<longrightarrow>
              ToCsv f data \<in>
                set (fst (run sc (w\<lparr>http_get := (http_get w)(initial_url sc := Inr soup0')\<rparr>))))"
proof -
  from assms obtain soup0 N where
    s: "http_get w (initial_url sc) = Inr soup0" and n: "get_pagination soup0 = Inr N"
    and ok: "list_all (page_ok sc w) [1..N]" and f: "f = filename sc"
    and d: "data = concat (map (page_journals sc w) [1..N])"
    unfolding run_ToCsv_iff by blast
  have g: "gets (fst (run sc w)) = initial_url sc # map (page_url sc) [1..N]"
    using s n ok by (rule run_gets_ok)
  then have l: "length (gets (fst (run sc w))) = nat N + 1"
    by simp
  have "ToCsv f data \<in>
      set (fst (run sc (w\<lparr>http_get := (http_get w)(initial_url sc := Inr soup0')\<rparr>)))"
    if "get_pagination soup0' = Inr N" for soup0'
    unfolding run_ToCsv_iff using that ok f d
    by (simp add: page_ok_update page_journals_update)
  moreover have "initial_url sc \<notin> set (map (page_url sc) [1..N])"
    using initial_url_not_page_url [of sc] by auto
  ultimately show ?thesis
    using s n g l d initial_url_not_page_url [of sc 1] run_requests_distinct [of sc w] by auto
qed

theorem run_discovery_fetch_gives_only_the_count_witness:
  "ToCsv (filename sample_scraper) (two_journals @ two_journals)
     \<in> set (fst (run sample_scraper sample_site)) \<and>
   gets (fst (run sample_scraper sample_site)) =
     [''https://example.org/journals/?q=physics'',
      ''https://example.org/journals/?page=1&q=physics'',
      ''https://example.org/journals/?page=2&q=physics''] \<and>
   (\<exists>soup0 N.
      http_get sample_site (initial_url sample_scraper) = Inr soup0 \<and>
      get_pagination soup0 = Inr N \<and>
      gets (fst (run sample_scraper sample_site)) =
        initial_url sample_scraper # map (page_url sample_scraper) [1..N] \<and>
      length (gets (fst (run sample_scraper sample_site))) = nat N + 1 \<and>
      initial_url sample_scraper \<noteq> page_url sample_scraper 1)"
proof -
  have h: "ToCsv (filename sample_scraper) (two_journals @ two_journals)
      \<in> set (fst (run sample_scraper sample_site))"
    by code_simp
  have g: "gets (fst (run sample_scraper sample_site)) =
     [''https://example.org/journals/?q=physics'',
      ''https://example.org/journals/?page=1&q=physics'',
      ''https://example.org/journals/?page=2&q=physics'']"
    by code_simp
  from run_discovery_fetch_gives_only_the_count [OF h] h g show ?thesis
    by blast
qed

text \<open>
  C10. If the first anchor of some name block of a page has no \<open>href\<close>,
  \<open>extract_journal_data\<close> returns no record for the page: it logs the \<open>KeyError\<close> and
  raises the \<open>SystemExit\<close> \<open>not_found\<close>; and every run whose loop fetches that page ends with
  that \<open>SystemExit\<close>, without any export, chart or console-print step.
\<close>

theorem run_aborts_on_anchor_without_href:
  assumes "nb \<in> set (find_all ''div'' ''affil-name mb-3'' soup)"
    and "find ''a'' nb = Some a" and "map_of (attrs a) ''href'' = None"
  shows "extract_journal_data soup =
           ([LogError (''Error extracting journal data: '' @ [CHR 0x27] @ ''href'' @ [CHR 0x27])],
            Inl not_found) \<and>
         (\<forall>sc w p. Get (page_url sc p) \<in> set (fst (run sc w)) \<and>
            http_get w (page_url sc p) = Inr soup \<longrightarrow>
            snd (run sc w) = Inl not_found \<and> list_all (\<lambda>ev. \<not> is_export ev) (fst (run sc w)))"
proof -
  from assms(2,3) have nh: "\<not> has_href nb"
    by (simp add: has_href_def)
  have e: "extract_journal_data soup =
      ([LogError (''Error extracting journal data: '' @ [CHR 0x27] @ ''href'' @ [CHR 0x27])],
       Inl not_found)"
    using assms(1) nh by (rule extract_journal_data_fails)
  then obtain k where "extract_journal_data_body soup = Inl k"
    by (auto simp: extract_journal_data_def split: sum.splits)
  then have "snd (run sc w) = Inl not_found \<and> list_all (\<lambda>ev. \<not> is_export ev) (fst (run sc w))"
    if "Get (page_url sc p) \<in> set (fst (run sc w))" "http_get w (page_url sc p) = Inr soup"
    for sc w p
    using run_extract_fails that by blast
  with e show ?thesis by blast
qed

theorem run_aborts_on_anchor_without_href_witness:
  "extract_journal_data page_anchor_without_href =
     ([LogError (''Error extracting journal data: '' @ [CHR 0x27] @ ''href'' @ [CHR 0x27])],
      Inl not_found) \<and>
   Get (page_url sample_scraper 1) \<in> set (fst (run sample_scraper site_anchor_without_href)) \<and>
   http_get site_anchor_without_href (page_url sample_scraper 1) = Inr page_anchor_without_href \<and>
   snd (run sample_scraper site_anchor_without_href) = Inl not_found \<and>
   list_all (\<lambda>ev. \<not> is_export ev) (fst (run sample_scraper site_anchor_without_href))"
proof -
  let ?a = "Tag ''a'' [(''name'', ''j1'')] [NavigableString ''J One'']"
  let ?nb = "div_tag ''affil-name mb-3'' [?a]"
  have nb: "?nb \<in> set (find_all ''div'' ''affil-name mb-3'' page_anchor_without_href)"
    by code_simp
  have a: "find ''a'' ?nb = Some ?a"
    by code_simp
  have h: "map_of (attrs ?a) ''href'' = None"
    by code_simp
  have g: "Get (page_url sample_scraper 1)
      \<in> set (fst (run sample_scraper site_anchor_without_href))"
    by code_simp
  have f: "http_get site_anchor_without_href (page_url sample_scraper 1) =
      Inr page_anchor_without_href"
    by code_simp
  from run_aborts_on_anchor_without_href [OF nb a h] g f show ?thesis
    by blast
qed

end
